theory Spec2Isabelle
  imports Complex_Main "HOL-Library.Sublist" "HOL-Library.Multiset"
begin

section \<open>Data model\<close>

text \<open>
  A paper is a Python dictionary; every key the selection code reads or writes is a
  field that may be absent (\<open>None\<close>).  Numbers are modelled as exact reals, dates as
  proleptic Gregorian ordinals (what \<open>date.toordinal()\<close> returns), strings as byte
  strings.  Papers live in a store: the lists passed between the stages hold
  references, and the stages that assign to \<open>paper[...]\<close> update the store.
\<close>

datatype error = KeyError string | OverflowError

datatype location = Title | Abstract

record kw_match =
  keyword :: string
  location :: location
  weight :: real

record details =
  primary_matches :: "kw_match list"
  secondary_matches :: "kw_match list"
  excluded_matches :: "string list"
  author_matches :: "string list"

record paper =
  paper_id :: "string option"
  title :: "string option"
  authors :: "string list option"
  abstract :: "string option"
  published_date :: "string option"
  categories :: "string list option"
  match_score :: "real option"
  match_details :: "details option"
  citation_count :: "int option"
  citation_velocity :: "real option"
  impact_score :: "real option"

type_synonym addr = nat
type_synonym heap = "addr \<Rightarrow> paper"

text \<open>The fields of \<open>ArxivParser\<close>, as \<open>__init__\<close> loads them from the keyword file.\<close>

record arxiv_parser =
  primary_keywords :: "string list"
  secondary_keywords :: "string list"
  exclude_keywords :: "string list"
  author_preferences :: "string list"
  weight_factors :: "string \<rightharpoonup> real"
  minimum_match_score :: real

section \<open>Strings\<close>

definition lower_char :: "char \<Rightarrow> char" where
  "lower_char c =
     (case map_of (zip ''ABCDEFGHIJKLMNOPQRSTUVWXYZ'' ''abcdefghijklmnopqrstuvwxyz'') c of
        None \<Rightarrow> c | Some l \<Rightarrow> l)"

definition lower :: "string \<Rightarrow> string" where
  "lower s = map lower_char s"

text \<open>Python's \<open>a in b\<close> on strings is the contiguous-substring test \<^const>\<open>sublist\<close>.\<close>

section \<open>ArxivParser.match_keywords\<close>

definition get_weight :: "(string \<rightharpoonup> real) \<Rightarrow> string \<Rightarrow> error + real" where
  "get_weight wts k = (case wts k of None \<Rightarrow> Inl (KeyError k) | Some w \<Rightarrow> Inr w)"

text \<open>\<open>weight_factors[loc] * weight_factors[tier]\<close>: the left factor is looked up first.\<close>

definition weight_product :: "(string \<rightharpoonup> real) \<Rightarrow> string \<Rightarrow> string \<Rightarrow> error + real" where
  "weight_product wts loc tier =
     (case get_weight wts loc of Inl e \<Rightarrow> Inl e
      | Inr a \<Rightarrow> (case get_weight wts tier of Inl e \<Rightarrow> Inl e | Inr b \<Rightarrow> Inr (a * b)))"

text \<open>
  The loop over one keyword tier (lines 43-55 for primary, 58-70 for secondary):
  title first, the abstract only when the title does not contain the keyword.
\<close>

fun keyword_matches ::
  "(string \<rightharpoonup> real) \<Rightarrow> string \<Rightarrow> string \<Rightarrow> string \<Rightarrow> string list \<Rightarrow> error + kw_match list" where
  "keyword_matches wts tier t a [] = Inr []"
| "keyword_matches wts tier t a (k # ks) =
     (if sublist (lower k) t then
        (case weight_product wts ''title_match'' tier of Inl e \<Rightarrow> Inl e
         | Inr w \<Rightarrow> (case keyword_matches wts tier t a ks of Inl e \<Rightarrow> Inl e
             | Inr ms \<Rightarrow> Inr (\<lparr>keyword = k, location = Title, weight = w\<rparr> # ms)))
      else if sublist (lower k) a then
        (case weight_product wts ''abstract_match'' tier of Inl e \<Rightarrow> Inl e
         | Inr w \<Rightarrow> (case keyword_matches wts tier t a ks of Inl e \<Rightarrow> Inl e
             | Inr ms \<Rightarrow> Inr (\<lparr>keyword = k, location = Abstract, weight = w\<rparr> # ms)))
      else keyword_matches wts tier t a ks)"

definition excluded_hits :: "string \<Rightarrow> string \<Rightarrow> string list \<Rightarrow> string list" where
  "excluded_hits t a ks = filter (\<lambda>k. sublist (lower k) t \<or> sublist (lower k) a) ks"

text \<open>
  The loop over the preferred authors reads \<open>paper['authors']\<close> in its body, so a
  missing author list raises only when there is a preferred author to test.
\<close>

definition author_hits :: "string list option \<Rightarrow> string list \<Rightarrow> error + string list" where
  "author_hits auths prefs =
     (case prefs of [] \<Rightarrow> Inr []
      | _ \<Rightarrow> (case auths of None \<Rightarrow> Inl (KeyError ''authors'')
          | Some aus \<Rightarrow> Inr (filter (\<lambda>p. lower p \<in> set (map lower aus)) prefs)))"

definition add_weights :: "real \<Rightarrow> kw_match list \<Rightarrow> real" where
  "add_weights s ms = foldl (\<lambda>acc m. acc + weight m) s ms"

definition calc_score :: "details \<Rightarrow> real" where
  "calc_score d =
     (let s0 = add_weights 0 (primary_matches d);
          s1 = add_weights s0 (secondary_matches d);
          s2 = (if author_matches d \<noteq> [] then s1 + 1 else s1);
          s3 = (if excluded_matches d \<noteq> [] then s2 - 2 else s2)
      in s3)"

definition match_keywords :: "arxiv_parser \<Rightarrow> paper \<Rightarrow> error + (real \<times> details)" where
  "match_keywords cfg p =
     (case title p of None \<Rightarrow> Inl (KeyError ''title'')
      | Some t0 \<Rightarrow>
     (case abstract p of None \<Rightarrow> Inl (KeyError ''abstract'')
      | Some a0 \<Rightarrow>
        let t = lower t0; a = lower a0 in
        (case keyword_matches (weight_factors cfg) ''primary_keyword_match'' t a
                (primary_keywords cfg) of Inl e \<Rightarrow> Inl e
         | Inr pm \<Rightarrow>
        (case keyword_matches (weight_factors cfg) ''secondary_keyword_match'' t a
                (secondary_keywords cfg) of Inl e \<Rightarrow> Inl e
         | Inr sm \<Rightarrow>
        (case author_hits (authors p) (author_preferences cfg) of Inl e \<Rightarrow> Inl e
         | Inr am \<Rightarrow>
            let d = \<lparr>primary_matches = pm, secondary_matches = sm,
                     excluded_matches = excluded_hits t a (exclude_keywords cfg),
                     author_matches = am\<rparr>
            in Inr (calc_score d, d))))))"

section \<open>PaperFilter\<close>

text \<open>
  \<open>datetime.strptime(s, '%Y-%m-%d').date()\<close> is library code: it is the parameter
  \<open>strptime\<close>, which returns the ordinal of the parsed date, or \<open>None\<close> where the
  library raises \<open>ValueError\<close>.  \<open>today\<close> is the ordinal of
  \<open>datetime.datetime.now().date()\<close>.  \<open>today - timedelta(days=days)\<close> raises
  \<open>OverflowError\<close> when the day count or the resulting date is out of range.
\<close>

text \<open>
  For concrete runs, \<open>strptime_ymd\<close> follows the library's
  \<open>strptime(s, '%Y-%m-%d')\<close>: four digits, a month \<open>1[0-2]|0[1-9]|[1-9]\<close>, a day
  \<open>3[0-1]|[1-2]\d|0[1-9]|[1-9]| [1-9]\<close>, nothing left over, and a date of the
  calendar.  The properties below are proved for every parser.
\<close>

definition digit_val :: "char \<Rightarrow> nat option" where
  "digit_val c = map_of (zip ''0123456789'' [0 ..< 10]) c"

fun digits_val :: "nat \<Rightarrow> string \<Rightarrow> nat option" where
  "digits_val acc [] = Some acc"
| "digits_val acc (c # cs) =
     (case digit_val c of None \<Rightarrow> None | Some v \<Rightarrow> digits_val (10 * acc + v) cs)"

definition is_leap :: "nat \<Rightarrow> bool" where
  "is_leap y = (y mod 4 = 0 \<and> (y mod 100 \<noteq> 0 \<or> y mod 400 = 0))"

definition days_in_month :: "nat \<Rightarrow> nat \<Rightarrow> nat" where
  "days_in_month y m =
     (if m = 2 then (if is_leap y then 29 else 28)
      else if m = 4 \<or> m = 6 \<or> m = 9 \<or> m = 11 then 30 else 31)"

definition ymd_ordinal :: "nat \<Rightarrow> nat \<Rightarrow> nat \<Rightarrow> int" where
  "ymd_ordinal y m d =
     int ((y - 1) * 365 + (y - 1) div 4 - (y - 1) div 100 + (y - 1) div 400
          + sum_list (map (days_in_month y) [1..<m]) + d)"

definition month_field :: "string \<Rightarrow> nat option" where
  "month_field ms =
     (if length ms = 1 \<or> length ms = 2 then
        (case digits_val 0 ms of None \<Rightarrow> None
         | Some m \<Rightarrow> if 1 \<le> m \<and> m \<le> 12 then Some m else None)
      else None)"

definition day_field :: "string \<Rightarrow> nat option" where
  "day_field ds =
     (case ds of
        [c] \<Rightarrow> (case digit_val c of None \<Rightarrow> None | Some d \<Rightarrow> if 1 \<le> d then Some d else None)
      | [c1, c2] \<Rightarrow>
          if c1 = CHR '' '' then
            (case digit_val c2 of None \<Rightarrow> None | Some d \<Rightarrow> if 1 \<le> d then Some d else None)
          else (case digits_val 0 [c1, c2] of None \<Rightarrow> None
                | Some d \<Rightarrow> if 1 \<le> d \<and> d \<le> 31 then Some d else None)
      | _ \<Rightarrow> None)"

definition strptime_ymd :: "string \<Rightarrow> int option" where
  "strptime_ymd s =
     (let ys = take 4 s; rest = drop 5 s;
          ms = takeWhile (\<lambda>c. c \<noteq> CHR ''-'') rest;
          ds = drop (length ms + 1) rest
      in if length s < 5 \<or> s ! 4 \<noteq> CHR ''-'' \<or> length rest \<le> length ms then None
         else (case digits_val 0 ys of None \<Rightarrow> None
               | Some y \<Rightarrow>
              (case month_field ms of None \<Rightarrow> None
               | Some m \<Rightarrow>
              (case day_field ds of None \<Rightarrow> None
               | Some d \<Rightarrow>
                  if 1 \<le> y \<and> d \<le> days_in_month y m then Some (ymd_ordinal y m d) else None))))"

definition date_minus_days :: "int \<Rightarrow> int \<Rightarrow> error + int" where
  "date_minus_days today days =
     (if \<bar>days\<bar> > 999999999 then Inl OverflowError
      else if today - days < 1 \<or> today - days > 3652059 then Inl OverflowError
      else Inr (today - days))"

text \<open>The body of the \<open>try\<close> of \<open>filter_by_date\<close>; \<open>KeyError\<close> and \<open>ValueError\<close> skip the paper.\<close>

definition date_ok :: "(string \<Rightarrow> int option) \<Rightarrow> int \<Rightarrow> paper \<Rightarrow> bool" where
  "date_ok strptime date_cutoff p =
     (case published_date p of None \<Rightarrow> False
      | Some s \<Rightarrow> (case strptime s of None \<Rightarrow> False | Some pub_date \<Rightarrow> pub_date \<ge> date_cutoff))"

definition filter_by_date ::
  "(string \<Rightarrow> int option) \<Rightarrow> int \<Rightarrow> heap \<Rightarrow> addr list \<Rightarrow> int \<Rightarrow> error + addr list" where
  "filter_by_date strptime today h papers days =
     (case date_minus_days today days of Inl e \<Rightarrow> Inl e
      | Inr date_cutoff \<Rightarrow> Inr (filter (\<lambda>r. date_ok strptime date_cutoff (h r)) papers))"

text \<open>\<open>paper.get('categories', [])\<close>\<close>

definition get_categories :: "paper \<Rightarrow> string list" where
  "get_categories p = (case categories p of None \<Rightarrow> [] | Some cs \<Rightarrow> cs)"

definition filter_by_category :: "heap \<Rightarrow> addr list \<Rightarrow> string list \<Rightarrow> addr list" where
  "filter_by_category h papers cats =
     filter (\<lambda>r. list_ex (\<lambda>category. category \<in> set (get_categories (h r))) cats) papers"

fun filter_duplicates_loop :: "heap \<Rightarrow> string set \<Rightarrow> addr list \<Rightarrow> error + addr list" where
  "filter_duplicates_loop h seen_ids [] = Inr []"
| "filter_duplicates_loop h seen_ids (r # rs) =
     (case paper_id (h r) of None \<Rightarrow> Inl (KeyError ''id'')
      | Some i \<Rightarrow>
          if i \<notin> seen_ids then
            (case filter_duplicates_loop h (insert i seen_ids) rs of Inl e \<Rightarrow> Inl e
             | Inr unique_papers \<Rightarrow> Inr (r # unique_papers))
          else filter_duplicates_loop h seen_ids rs)"

definition filter_duplicates :: "heap \<Rightarrow> addr list \<Rightarrow> error + addr list" where
  "filter_duplicates h papers = filter_duplicates_loop h {} papers"

text \<open>\<open>papers[:limit]\<close>: a negative limit counts from the end of the list.\<close>

definition limit_papers :: "addr list \<Rightarrow> int \<Rightarrow> addr list" where
  "limit_papers papers limit =
     (if limit \<ge> 0 then take (nat limit) papers
      else take (nat (int (length papers) + limit)) papers)"

section \<open>ArxivParser.filter_papers_by_keywords\<close>

text \<open>
  The loop scores every paper, writes \<open>match_score\<close> and \<open>match_details\<close> into the
  papers that reach the minimum score (an assignment to the input record) and
  collects them; an exception of \<open>match_keywords\<close> leaves the function.
\<close>

fun filter_papers_loop :: "arxiv_parser \<Rightarrow> heap \<Rightarrow> addr list \<Rightarrow> error + (heap \<times> addr list)" where
  "filter_papers_loop cfg h [] = Inr (h, [])"
| "filter_papers_loop cfg h (r # rs) =
     (case match_keywords cfg (h r) of Inl e \<Rightarrow> Inl e
      | Inr (s, d) \<Rightarrow>
          if s \<ge> minimum_match_score cfg then
            (case filter_papers_loop cfg
                    (h(r := (h r)\<lparr>match_score := Some s, match_details := Some d\<rparr>)) rs of
               Inl e \<Rightarrow> Inl e
             | Inr (h', filtered_papers) \<Rightarrow> Inr (h', r # filtered_papers))
          else filter_papers_loop cfg h rs)"

text \<open>
  \<open>filtered_papers.sort(key=lambda x: x['match_score'], reverse=True)\<close>: Python's sort
  is stable, also with \<open>reverse=True\<close>; that is the insertion sort on the negated key.
\<close>

definition sort_by_match_score :: "heap \<Rightarrow> addr list \<Rightarrow> error + addr list" where
  "sort_by_match_score h rs =
     (if list_all (\<lambda>r. match_score (h r) \<noteq> None) rs
      then Inr (sort_key (\<lambda>r. - the (match_score (h r))) rs)
      else Inl (KeyError ''match_score''))"

definition filter_papers_by_keywords ::
  "arxiv_parser \<Rightarrow> heap \<Rightarrow> addr list \<Rightarrow> error + (heap \<times> addr list)" where
  "filter_papers_by_keywords cfg h papers =
     (case filter_papers_loop cfg h papers of Inl e \<Rightarrow> Inl e
      | Inr (h', filtered_papers) \<Rightarrow>
          (case sort_by_match_score h' filtered_papers of Inl e \<Rightarrow> Inl e
           | Inr sorted_papers \<Rightarrow> Inr (h', sorted_papers)))"

section \<open>The selection steps of main\<close>

text \<open>Steps 2, 3, 4, the deduplication and step 7 of \<open>run_daily_report.main\<close>.\<close>

definition select ::
  "(string \<Rightarrow> int option) \<Rightarrow> int \<Rightarrow> arxiv_parser \<Rightarrow> int \<Rightarrow> string list \<Rightarrow> int \<Rightarrow>
   heap \<Rightarrow> addr list \<Rightarrow> error + (heap \<times> addr list)" where
  "select strptime today cfg recent_days cats max_papers h recent_papers =
     (case filter_by_date strptime today h recent_papers recent_days of Inl e \<Rightarrow> Inl e
      | Inr by_date \<Rightarrow>
          let by_cat = filter_by_category h by_date cats in
          (case filter_papers_by_keywords cfg h by_cat of Inl e \<Rightarrow> Inl e
           | Inr (h', keyword_matched_papers) \<Rightarrow>
               (case filter_duplicates h' keyword_matched_papers of Inl e \<Rightarrow> Inl e
                | Inr combined_papers \<Rightarrow> Inr (h', limit_papers combined_papers max_papers))))"

section \<open>CitationAnalyzer\<close>

definition velocity_of :: "(string \<Rightarrow> int option) \<Rightarrow> int \<Rightarrow> paper \<Rightarrow> real" where
  "velocity_of strptime today p =
     (case citation_count p of None \<Rightarrow> 0
      | Some c \<Rightarrow>
     (case published_date p of None \<Rightarrow> 0
      | Some s \<Rightarrow>
     (case strptime s of None \<Rightarrow> 0
      | Some pub_date \<Rightarrow> real_of_int c / real_of_int (max 1 (today - pub_date)))))"

fun calculate_citation_velocity ::
  "(string \<Rightarrow> int option) \<Rightarrow> int \<Rightarrow> heap \<Rightarrow> addr list \<Rightarrow> heap" where
  "calculate_citation_velocity strptime today h [] = h"
| "calculate_citation_velocity strptime today h (r # rs) =
     calculate_citation_velocity strptime today
       (h(r := (h r)\<lparr>citation_velocity := Some (velocity_of strptime today (h r))\<rparr>)) rs"

definition impact_of :: "paper \<Rightarrow> real" where
  "impact_of p =
     (let cc = (case citation_count p of None \<Rightarrow> 0 | Some c \<Rightarrow> real_of_int c);
          cv = (case citation_velocity p of None \<Rightarrow> 0 | Some v \<Rightarrow> v)
      in (0.7 * cc) + (0.3 * cv * 10))"

fun impact_loop :: "heap \<Rightarrow> addr list \<Rightarrow> heap" where
  "impact_loop h [] = h"
| "impact_loop h (r # rs) = impact_loop (h(r := (h r)\<lparr>impact_score := Some (impact_of (h r))\<rparr>)) rs"

definition get_impact_score :: "paper \<Rightarrow> real" where
  "get_impact_score p = (case impact_score p of None \<Rightarrow> 0 | Some v \<Rightarrow> v)"

definition rank_papers_by_impact ::
  "(string \<Rightarrow> int option) \<Rightarrow> int \<Rightarrow> heap \<Rightarrow> addr list \<Rightarrow> heap \<times> addr list" where
  "rank_papers_by_impact strptime today h papers =
     (let h1 = calculate_citation_velocity strptime today h papers;
          h2 = impact_loop h1 papers
      in (h2, sort_key (\<lambda>r. - get_impact_score (h2 r)) papers))"

section \<open>Notions used in the statements and proofs\<close>

text \<open>
  Whether \<open>match_keywords\<close> returns a score that reaches the minimum, that score, and the
  record after the two assignments of \<open>filter_papers_by_keywords\<close>.
\<close>

definition qualifies :: "arxiv_parser \<Rightarrow> paper \<Rightarrow> bool" where
  "qualifies cfg p =
     (case match_keywords cfg p of Inl e \<Rightarrow> False | Inr (s, d) \<Rightarrow> s \<ge> minimum_match_score cfg)"

definition score_of :: "arxiv_parser \<Rightarrow> paper \<Rightarrow> real" where
  "score_of cfg p = (case match_keywords cfg p of Inl e \<Rightarrow> 0 | Inr (s, d) \<Rightarrow> s)"

definition scored :: "arxiv_parser \<Rightarrow> paper \<Rightarrow> paper" where
  "scored cfg p =
     (case match_keywords cfg p of Inl e \<Rightarrow> p
      | Inr (s, d) \<Rightarrow> p\<lparr>match_score := Some s, match_details := Some d\<rparr>)"

section \<open>Example inputs\<close>

text \<open>The empty dictionary, a store built from a list of papers, and the taxonomy of the
  specification's example (title 1.0, abstract 0.5, primary 2.0, secondary 1.0, minimum 1.5).\<close>

definition empty_paper :: paper where
  "empty_paper = \<lparr>paper_id = None, title = None, authors = None, abstract = None,
     published_date = None, categories = None, match_score = None, match_details = None,
     citation_count = None, citation_velocity = None, impact_score = None\<rparr>"

definition heap_of :: "paper list \<Rightarrow> heap" where
  "heap_of ps r = (if r < length ps then ps ! r else empty_paper)"

definition mk_paper :: "string \<Rightarrow> string \<Rightarrow> string \<Rightarrow> string \<Rightarrow> paper" where
  "mk_paper i t a d = empty_paper\<lparr>paper_id := Some i, title := Some t, authors := Some [''Ada Lovelace''],
     abstract := Some a, published_date := Some d, categories := Some [''cs.RO'']\<rparr>"

definition example_weights :: "string \<rightharpoonup> real" where
  "example_weights = [''title_match'' \<mapsto> 1, ''abstract_match'' \<mapsto> 1/2,
     ''primary_keyword_match'' \<mapsto> 2, ''secondary_keyword_match'' \<mapsto> 1]"

definition example_parser :: arxiv_parser where
  "example_parser = \<lparr>primary_keywords = [''diffusion model''], secondary_keywords = [''transformer''],
     exclude_keywords = [''survey'', ''review''], author_preferences = [],
     weight_factors = example_weights, minimum_match_score = 3/2\<rparr>"

text \<open>The days around 2024-01-15, whose ordinal is 738900.\<close>

definition today_ex :: int where
  "today_ex = 738900"

text \<open>A taxonomy with a preferred author, and a paper that hits every kind of keyword.\<close>

definition author_parser :: arxiv_parser where
  "author_parser = example_parser\<lparr>author_preferences := [''ada lovelace'', ''alan turing'']\<rparr>"

definition survey_paper :: paper where
  "survey_paper = mk_paper ''2501.00001'' ''Diffusion Model Survey''
     ''We review the Transformer.'' ''2024-01-14''"

definition survey_details :: details where
  "survey_details = \<lparr>primary_matches = [\<lparr>keyword = ''diffusion model'', location = Title, weight = 2\<rparr>],
     secondary_matches = [\<lparr>keyword = ''transformer'', location = Abstract, weight = 1/2\<rparr>],
     excluded_matches = [''survey'', ''review''], author_matches = [''ada lovelace'']\<rparr>"

text \<open>A taxonomy whose exclude keyword is part of its primary keyword.\<close>

definition overlap_parser :: arxiv_parser where
  "overlap_parser = \<lparr>primary_keywords = [''visual slam''], secondary_keywords = [],
     exclude_keywords = [''slam''], author_preferences = [],
     weight_factors = example_weights(''primary_keyword_match'' \<mapsto> 3/2), minimum_match_score = 3/2\<rparr>"

definition plain_paper :: paper where
  "plain_paper = mk_paper ''2501.00002'' ''Mapping at Scale'' ''We map.'' ''2024-01-14''"

text \<open>Four papers with scores 1, 2, 3 and 2 under the example taxonomy.\<close>

definition ranking_heap :: heap where
  "ranking_heap = heap_of
     [mk_paper ''2501.00010'' ''Transformer Notes'' ''Text'' ''2024-01-14'',
      mk_paper ''2501.00011'' ''Diffusion Model'' ''Text'' ''2024-01-14'',
      mk_paper ''2501.00012'' ''Transformer Diffusion Model'' ''Text'' ''2024-01-14'',
      mk_paper ''2501.00011'' ''A Diffusion Model'' ''Text'' ''2024-01-13'']"

text \<open>Papers with and without citation data, published one and five days before today.\<close>

definition cited_heap :: heap where
  "cited_heap = heap_of
     [(mk_paper ''2501.00020'' ''Diffusion Model'' ''Text'' ''2024-01-14'')\<lparr>citation_count := Some 4\<rparr>,
      mk_paper ''2501.00021'' ''Transformer Notes'' ''Text'' ''2024-01-14'',
      (mk_paper ''2501.00022'' ''A Diffusion Model'' ''Text'' ''2024-01-10'')\<lparr>citation_count := Some 10\<rparr>]"

text \<open>Malformed records: the empty dictionary, a paper without a title, and a store with an
  undated paper, a paper with an unparseable date and a complete paper.\<close>

definition untitled_paper :: paper where
  "untitled_paper = (mk_paper ''2501.00030'' ''Diffusion Model'' ''Text'' ''2024-01-14'')\<lparr>title := None\<rparr>"

definition malformed_heap :: heap where
  "malformed_heap = heap_of
     [empty_paper,
      mk_paper ''2501.00031'' ''Diffusion Model'' ''Text'' ''14 Jan 2024'',
      mk_paper ''2501.00032'' ''Diffusion Model'' ''Text'' ''2024-01-14'']"

named_theorems ev \<open>unfolding rules for concrete evaluation\<close>

declare empty_paper_def [ev] heap_of_def [ev] mk_paper_def [ev] example_weights_def [ev]
  example_parser_def [ev] today_ex_def [ev]
  strptime_ymd_def [ev] digit_val_def [ev] month_field_def [ev] day_field_def [ev]
  days_in_month_def [ev] ymd_ordinal_def [ev] is_leap_def [ev] upt_rec [ev]
  sublist_Cons_right [ev]

section \<open>Properties\<close>

subsection \<open>Lower-casing the strings of the examples\<close>

lemma lower_literals [simp]:
  "lower ''diffusion model'' = ''diffusion model''"
  "lower ''transformer'' = ''transformer''"
  "lower ''survey'' = ''survey''"
  "lower ''review'' = ''review''"
  "lower ''visual slam'' = ''visual slam''"
  "lower ''slam'' = ''slam''"
  "lower ''ada lovelace'' = ''ada lovelace''"
  "lower ''alan turing'' = ''alan turing''"
  "lower ''Ada Lovelace'' = ''ada lovelace''"
  "lower ''Diffusion Model Survey'' = ''diffusion model survey''"
  "lower ''Mapping at Scale'' = ''mapping at scale''"
  "lower ''Visual SLAM Mapping at Scale'' = ''visual slam mapping at scale''"
  "lower ''Diffusion Model Mapping at Scale'' = ''diffusion model mapping at scale''"
  "lower ''Transformer Notes'' = ''transformer notes''"
  "lower ''Diffusion Model'' = ''diffusion model''"
  "lower ''Transformer Diffusion Model'' = ''transformer diffusion model''"
  "lower ''A Diffusion Model'' = ''a diffusion model''"
  "lower ''We review the Transformer.'' = ''we review the transformer.''"
  "lower ''We map.'' = ''we map.''"
  "lower ''Text'' = ''text''"
  by code_simp+

subsection \<open>The date filter\<close>

lemma date_minus_days_Inr:
  "date_minus_days today days = Inr c \<Longrightarrow> c = today - days"
  by (auto simp: date_minus_days_def split: if_splits)

lemma date_minus_days_defined:
  "0 \<le> days \<Longrightarrow> 1 \<le> today - days \<Longrightarrow> today \<le> 3652059 \<Longrightarrow>
   date_minus_days today days = Inr (today - days)"
  by (auto simp: date_minus_days_def)

lemma filter_by_date_Inr:
  "filter_by_date strptime today h papers days = Inr out \<Longrightarrow>
   out = filter (\<lambda>r. date_ok strptime (today - days) (h r)) papers"
  by (auto simp: filter_by_date_def dest: date_minus_days_Inr split: sum.splits)

lemma strptime_ex [simp]:
  "strptime_ymd ''2024-01-20'' = Some 738905"
  "strptime_ymd ''2024-01-14'' = Some 738899"
  "strptime_ymd ''2024-01-13'' = Some 738898"
  "strptime_ymd ''2024-01-10'' = Some 738895"
  "strptime_ymd ''14 Jan 2024'' = None"
  by (simp_all add: ev)

text \<open>
  C3, as stated, bounds the surviving dates from above by today.  The code compares with
  the cut-off only: with today 2024-01-15 and a window of 2 days, a paper dated
  2024-01-20 survives.
\<close>

theorem filter_by_date_upper_bound_counterexample:
  "filter_by_date strptime_ymd today_ex
     (heap_of [mk_paper ''2501.00001'' ''Diffusion Model'' ''Text'' ''2024-01-20'']) [0] 2 = Inr [0]
   \<and> strptime_ymd ''2024-01-20'' = Some 738905 \<and> \<not> (738905 \<le> today_ex)"
  by (simp add: filter_by_date_def date_minus_days_def date_ok_def heap_of_def mk_paper_def
      today_ex_def empty_paper_def)

text \<open>
  C3 (amended): when the cut-off \<open>today - days\<close> is a date of the calendar, \<open>filter_by_date\<close>
  returns; what it returns is a subsequence of its input, every surviving paper has a
  parseable publication date on or after the cut-off (no upper bound is checked), and a
  paper whose date is missing or unparseable does not survive.
\<close>

theorem filter_by_date_window:
  "(0 \<le> days \<and> 1 \<le> today - days \<and> today \<le> 3652059 \<longrightarrow>
      (\<exists>out. filter_by_date strptime today h papers days = Inr out)) \<and>
   (\<forall>out. filter_by_date strptime today h papers days = Inr out \<longrightarrow>
      subseq out papers \<and>
      (\<forall>r \<in> set out. \<exists>s d. published_date (h r) = Some s \<and> strptime s = Some d \<and> today - days \<le> d) \<and>
      (\<forall>r \<in> set papers.
          published_date (h r) = None \<or> (\<exists>s. published_date (h r) = Some s \<and> strptime s = None)
          \<longrightarrow> r \<notin> set out))"
proof (intro conjI impI allI)
  assume "0 \<le> days \<and> 1 \<le> today - days \<and> today \<le> 3652059"
  then show "\<exists>out. filter_by_date strptime today h papers days = Inr out"
    by (simp add: filter_by_date_def date_minus_days_defined)
next
  fix out
  assume a: "filter_by_date strptime today h papers days = Inr out"
  have out: "out = filter (\<lambda>r. date_ok strptime (today - days) (h r)) papers"
    by (rule filter_by_date_Inr [OF a])
  show "subseq out papers" by (simp add: out)
  show "\<forall>r \<in> set out. \<exists>s d. published_date (h r) = Some s \<and> strptime s = Some d \<and> today - days \<le> d"
    by (auto simp: out date_ok_def split: option.splits)
  show "\<forall>r \<in> set papers.
          published_date (h r) = None \<or> (\<exists>s. published_date (h r) = Some s \<and> strptime s = None)
          \<longrightarrow> r \<notin> set out"
    by (auto simp: out date_ok_def split: option.splits)
qed

theorem filter_by_date_window_witness:
  "filter_by_date strptime_ymd today_ex
     (heap_of [mk_paper ''a'' ''T'' ''A'' ''2024-01-14'', mk_paper ''b'' ''T'' ''A'' ''2024-01-10'',
               mk_paper ''c'' ''T'' ''A'' ''14 Jan 2024'']) [0, 1, 2] 2 = Inr [0]
   \<and> subseq [0] [0, 1, 2::nat] \<and> strptime_ymd ''2024-01-14'' = Some 738899 \<and> today_ex - 2 \<le> 738899
   \<and> strptime_ymd ''14 Jan 2024'' = None"
  using filter_by_date_window [of 2 today_ex strptime_ymd
     "heap_of [mk_paper ''a'' ''T'' ''A'' ''2024-01-14'', mk_paper ''b'' ''T'' ''A'' ''2024-01-10'',
               mk_paper ''c'' ''T'' ''A'' ''14 Jan 2024'']" "[0, 1, 2]"]
  by (simp add: filter_by_date_def date_minus_days_def date_ok_def heap_of_def mk_paper_def
      today_ex_def empty_paper_def)

subsection \<open>Keyword scoring\<close>

lemma add_weights_sum: "add_weights s ms = s + sum_list (map weight ms)"
  unfolding add_weights_def by (induction ms arbitrary: s) simp_all

lemma calc_score_eq:
  "calc_score d = sum_list (map weight (primary_matches d)) + sum_list (map weight (secondary_matches d))
     + (if author_matches d \<noteq> [] then 1 else 0) - (if excluded_matches d \<noteq> [] then 2 else 0)"
  by (simp add: calc_score_def add_weights_sum Let_def)

lemma weight_product_Inr:
  "weight_product wts loc tier = Inr w \<longleftrightarrow>
     (\<exists>wl wt. wts loc = Some wl \<and> wts tier = Some wt \<and> w = wl * wt)"
  by (auto simp: weight_product_def get_weight_def split: option.splits)

lemma keyword_matches_keywords:
  "keyword_matches wts tier t a ks = Inr ms \<Longrightarrow>
   map keyword ms = filter (\<lambda>k. sublist (lower k) t \<or> sublist (lower k) a) ks"
  by (induction ks arbitrary: ms) (auto split: if_splits sum.splits)

lemma keyword_matches_hit:
  "keyword_matches wts tier t a ks = Inr ms \<Longrightarrow> m \<in> set ms \<Longrightarrow>
   (location m = Title \<longleftrightarrow> sublist (lower (keyword m)) t) \<and>
   (location m = Abstract \<longleftrightarrow> \<not> sublist (lower (keyword m)) t \<and> sublist (lower (keyword m)) a) \<and>
   (\<exists>wl wt. wts (if location m = Title then ''title_match'' else ''abstract_match'') = Some wl \<and>
        wts tier = Some wt \<and> weight m = wl * wt)"
proof (induction ks arbitrary: ms)
  case Nil
  then show ?case by simp
next
  case (Cons k ks)
  show ?case
  proof (cases "sublist (lower k) t")
    case True
    with Cons.prems obtain w ms' where
      w: "weight_product wts ''title_match'' tier = Inr w" and
      ms': "keyword_matches wts tier t a ks = Inr ms'" and
      ms: "ms = \<lparr>keyword = k, location = Title, weight = w\<rparr> # ms'"
      by (auto split: sum.splits)
    from Cons.prems(2) ms have "m = \<lparr>keyword = k, location = Title, weight = w\<rparr> \<or> m \<in> set ms'"
      by simp
    then show ?thesis
    proof
      assume "m = \<lparr>keyword = k, location = Title, weight = w\<rparr>"
      with True w show ?thesis by (simp add: weight_product_Inr)
    next
      assume "m \<in> set ms'"
      with Cons.IH [OF ms'] show ?thesis by blast
    qed
  next
    case False
    note nt = False
    show ?thesis
    proof (cases "sublist (lower k) a")
      case True
      with nt Cons.prems obtain w ms' where
        w: "weight_product wts ''abstract_match'' tier = Inr w" and
        ms': "keyword_matches wts tier t a ks = Inr ms'" and
        ms: "ms = \<lparr>keyword = k, location = Abstract, weight = w\<rparr> # ms'"
        by (auto split: sum.splits)
      from Cons.prems(2) ms have "m = \<lparr>keyword = k, location = Abstract, weight = w\<rparr> \<or> m \<in> set ms'"
        by simp
      then show ?thesis
      proof
        assume "m = \<lparr>keyword = k, location = Abstract, weight = w\<rparr>"
        with True nt w show ?thesis by (simp add: weight_product_Inr)
      next
        assume "m \<in> set ms'"
        with Cons.IH [OF ms'] show ?thesis by blast
      qed
    next
      case False
      with nt Cons.prems have "keyword_matches wts tier t a ks = Inr ms" by simp
      from Cons.IH [OF this Cons.prems(2)] show ?thesis .
    qed
  qed
qed

lemma match_keywords_Inr:
  assumes "match_keywords cfg p = Inr (s, d)"
  shows "\<exists>t a. title p = Some t \<and> abstract p = Some a \<and>
     keyword_matches (weight_factors cfg) ''primary_keyword_match'' (lower t) (lower a)
        (primary_keywords cfg) = Inr (primary_matches d) \<and>
     keyword_matches (weight_factors cfg) ''secondary_keyword_match'' (lower t) (lower a)
        (secondary_keywords cfg) = Inr (secondary_matches d) \<and>
     author_hits (authors p) (author_preferences cfg) = Inr (author_matches d) \<and>
     excluded_matches d = excluded_hits (lower t) (lower a) (exclude_keywords cfg) \<and>
     s = calc_score d"
  using assms unfolding match_keywords_def
  by (auto simp: Let_def split: option.splits sum.splits)

lemma match_keywords_intro:
  assumes "title p = Some t" "abstract p = Some a"
    "keyword_matches (weight_factors cfg) ''primary_keyword_match'' (lower t) (lower a)
        (primary_keywords cfg) = Inr pm"
    "keyword_matches (weight_factors cfg) ''secondary_keyword_match'' (lower t) (lower a)
        (secondary_keywords cfg) = Inr sm"
    "author_hits (authors p) (author_preferences cfg) = Inr am"
    "d = \<lparr>primary_matches = pm, secondary_matches = sm,
           excluded_matches = excluded_hits (lower t) (lower a) (exclude_keywords cfg),
           author_matches = am\<rparr>"
  shows "match_keywords cfg p = Inr (calc_score d, d)"
  using assms unfolding match_keywords_def by (simp add: Let_def)

lemma weight_product_cong:
  "wts' loc = wts loc \<Longrightarrow> wts' tier = wts tier \<Longrightarrow>
   weight_product wts' loc tier = weight_product wts loc tier"
  by (auto simp: weight_product_def get_weight_def split: option.splits)

lemma keyword_matches_cong:
  assumes "wts' ''title_match'' = wts ''title_match''" "wts' ''abstract_match'' = wts ''abstract_match''"
    "wts' tier = wts tier"
  shows "keyword_matches wts' tier t a ks = keyword_matches wts tier t a ks"
proof (induction ks)
  case Nil
  show ?case by simp
next
  case (Cons k ks)
  have wp1: "weight_product wts' ''title_match'' tier = weight_product wts ''title_match'' tier"
    using assms(1,3) by (rule weight_product_cong)
  have wp2: "weight_product wts' ''abstract_match'' tier = weight_product wts ''abstract_match'' tier"
    using assms(2,3) by (rule weight_product_cong)
  show ?case by (simp only: keyword_matches.simps Cons wp1 wp2)
qed

lemmas mk_ev = match_keywords_def weight_product_def get_weight_def excluded_hits_def
  author_hits_def calc_score_def add_weights_def

lemma match_keywords_survey:
  "match_keywords author_parser survey_paper = Inr (3/2, survey_details)"
  by (simp add: mk_ev author_parser_def survey_paper_def survey_details_def ev)



text \<open>
  C10: the weight-factor dictionary is read at the four multiplier keys only, so any
  bonus or penalty entry it holds has no effect on the result; the author bonus is 1
  and the exclusion penalty is 2, each applied once.
\<close>

theorem bonus_penalty_constants:
  assumes "wts' ''title_match'' = weight_factors cfg ''title_match''"
    "wts' ''abstract_match'' = weight_factors cfg ''abstract_match''"
    "wts' ''primary_keyword_match'' = weight_factors cfg ''primary_keyword_match''"
    "wts' ''secondary_keyword_match'' = weight_factors cfg ''secondary_keyword_match''"
  shows "match_keywords (cfg\<lparr>weight_factors := wts'\<rparr>) p = match_keywords cfg p
    \<and> (\<forall>s d. match_keywords cfg p = Inr (s, d) \<longrightarrow>
          s - (sum_list (map weight (primary_matches d)) + sum_list (map weight (secondary_matches d)))
            = (if author_matches d = [] then 0 else 1) - (if excluded_matches d = [] then 0 else 2))"
proof
  have 1: "keyword_matches wts' ''primary_keyword_match'' t a ks
      = keyword_matches (weight_factors cfg) ''primary_keyword_match'' t a ks" for t a ks
    using assms by (intro keyword_matches_cong)
  have 2: "keyword_matches wts' ''secondary_keyword_match'' t a ks
      = keyword_matches (weight_factors cfg) ''secondary_keyword_match'' t a ks" for t a ks
    using assms by (intro keyword_matches_cong)
  show "match_keywords (cfg\<lparr>weight_factors := wts'\<rparr>) p = match_keywords cfg p"
    unfolding match_keywords_def by (simp add: 1 2 cong: sum.case_cong option.case_cong)
  show "\<forall>s d. match_keywords cfg p = Inr (s, d) \<longrightarrow>
          s - (sum_list (map weight (primary_matches d)) + sum_list (map weight (secondary_matches d)))
            = (if author_matches d = [] then 0 else 1) - (if excluded_matches d = [] then 0 else 2)"
    by (auto dest!: match_keywords_Inr simp: calc_score_eq)
qed

theorem bonus_penalty_constants_witness:
  "match_keywords (author_parser\<lparr>weight_factors :=
       (weight_factors author_parser)(''author_match'' \<mapsto> 5, ''excluded_match'' \<mapsto> 7)\<rparr>) survey_paper
     = Inr (3/2, survey_details)
   \<and> (3/2 :: real) - (2 + 1/2) = 1 - 2"
  using bonus_penalty_constants [of "(weight_factors author_parser)(''author_match'' \<mapsto> 5, ''excluded_match'' \<mapsto> 7)"
      author_parser survey_paper] match_keywords_survey
  by simp



lemma keyword_matches_total:
  assumes "wts ''title_match'' = Some wt" "wts ''abstract_match'' = Some wa" "wts tier = Some m"
  shows "\<exists>ms. keyword_matches wts tier t a ks = Inr ms \<and>
     sum_list (map weight ms) =
       (\<Sum>k\<leftarrow>ks. if sublist (lower k) t then wt * m else if sublist (lower k) a then wa * m else 0)"
proof (induction ks)
  case Nil
  show ?case by simp
next
  case (Cons k ks)
  have wp: "weight_product wts ''title_match'' tier = Inr (wt * m)"
    "weight_product wts ''abstract_match'' tier = Inr (wa * m)"
    using assms by (simp_all add: weight_product_def get_weight_def)
  from Cons obtain ms where ms: "keyword_matches wts tier t a ks = Inr ms"
    and sm: "sum_list (map weight ms) =
       (\<Sum>k\<leftarrow>ks. if sublist (lower k) t then wt * m else if sublist (lower k) a then wa * m else 0)"
    by blast
  show ?case by (simp add: wp ms sm)
qed

text \<open>
  C8, as stated, fails: when an exclude keyword is part of the primary keyword, the new
  title hit brings the exclusion penalty with it.  With weight 1.0 * 1.5 for the hit,
  the score falls from 0 to -0.5.
\<close>

theorem title_hit_monotone_counterexample:
  "match_keywords overlap_parser plain_paper
     = Inr (0, \<lparr>primary_matches = [], secondary_matches = [], excluded_matches = [], author_matches = []\<rparr>)
   \<and> match_keywords overlap_parser (plain_paper\<lparr>title := Some ''Visual SLAM Mapping at Scale''\<rparr>)
     = Inr (- 1/2, \<lparr>primary_matches = [\<lparr>keyword = ''visual slam'', location = Title, weight = 3/2\<rparr>],
          secondary_matches = [], excluded_matches = [''slam''], author_matches = []\<rparr>)
   \<and> (- 1/2 :: real) < 0"
  by (simp add: mk_ev overlap_parser_def plain_paper_def ev)

text \<open>
  C8 (amended): let the four multipliers be present and non-negative for the title and
  the two tiers, with the title multiplier at least the abstract multiplier.  If the new
  title still contains every primary and secondary keyword the old title contained, and
  contains an exclude keyword only when the paper already had an exclusion match, then
  scoring the paper with the new title succeeds and its score is not lower.
\<close>

theorem title_hit_monotone:
  assumes wts: "weight_factors cfg ''title_match'' = Some wt" "weight_factors cfg ''abstract_match'' = Some wa"
      "weight_factors cfg ''primary_keyword_match'' = Some mp"
      "weight_factors cfg ''secondary_keyword_match'' = Some ms"
    and nonneg: "0 \<le> wt" "wa \<le> wt" "0 \<le> mp" "0 \<le> ms"
    and old: "match_keywords cfg p = Inr (s, d)" "title p = Some t"
    and keep: "\<forall>k \<in> set (primary_keywords cfg) \<union> set (secondary_keywords cfg).
        sublist (lower k) (lower t) \<longrightarrow> sublist (lower k) (lower t')"
    and excl: "\<forall>k \<in> set (exclude_keywords cfg). sublist (lower k) (lower t') \<longrightarrow> excluded_matches d \<noteq> []"
  shows "\<exists>s' d'. match_keywords cfg (p\<lparr>title := Some t'\<rparr>) = Inr (s', d') \<and> s \<le> s'"
proof -
  let ?W = "weight_factors cfg"
  let ?val = "\<lambda>m x a k. if sublist (lower k) x then wt * m else if sublist (lower k) a then wa * m else 0"
  from match_keywords_Inr [OF old(1)] old(2) obtain a where
    a: "abstract p = Some a" and
    pm: "keyword_matches ?W ''primary_keyword_match'' (lower t) (lower a)
        (primary_keywords cfg) = Inr (primary_matches d)" and
    sm: "keyword_matches ?W ''secondary_keyword_match'' (lower t) (lower a)
        (secondary_keywords cfg) = Inr (secondary_matches d)" and
    am: "author_hits (authors p) (author_preferences cfg) = Inr (author_matches d)" and
    ex: "excluded_matches d = excluded_hits (lower t) (lower a) (exclude_keywords cfg)" and
    s: "s = calc_score d"
    by auto
  from keyword_matches_total [OF wts(1,2,3), of "lower t" "lower a" "primary_keywords cfg"] pm
  have pv: "sum_list (map weight (primary_matches d))
      = (\<Sum>k\<leftarrow>primary_keywords cfg. ?val mp (lower t) (lower a) k)"
    by auto
  from keyword_matches_total [OF wts(1,2,4), of "lower t" "lower a" "secondary_keywords cfg"] sm
  have sv: "sum_list (map weight (secondary_matches d))
      = (\<Sum>k\<leftarrow>secondary_keywords cfg. ?val ms (lower t) (lower a) k)"
    by auto
  from keyword_matches_total [OF wts(1,2,3), of "lower t'" "lower a" "primary_keywords cfg"]
  obtain pm' where pm': "keyword_matches ?W ''primary_keyword_match'' (lower t') (lower a)
        (primary_keywords cfg) = Inr pm'"
    and pv': "sum_list (map weight pm') = (\<Sum>k\<leftarrow>primary_keywords cfg. ?val mp (lower t') (lower a) k)"
    by blast
  from keyword_matches_total [OF wts(1,2,4), of "lower t'" "lower a" "secondary_keywords cfg"]
  obtain sm' where sm': "keyword_matches ?W ''secondary_keyword_match'' (lower t') (lower a)
        (secondary_keywords cfg) = Inr sm'"
    and sv': "sum_list (map weight sm') = (\<Sum>k\<leftarrow>secondary_keywords cfg. ?val ms (lower t') (lower a) k)"
    by blast
  define d' where "d' = \<lparr>primary_matches = pm', secondary_matches = sm',
      excluded_matches = excluded_hits (lower t') (lower a) (exclude_keywords cfg),
      author_matches = author_matches d\<rparr>"
  have res: "match_keywords cfg (p\<lparr>title := Some t'\<rparr>) = Inr (calc_score d', d')"
    by (rule match_keywords_intro [where t = t' and a = a and pm = pm' and sm = sm'
          and am = "author_matches d"])
       (simp_all add: a pm' sm' am d'_def)
  have mono: "?val m (lower t) (lower a) k \<le> ?val m (lower t') (lower a) k"
    if "0 \<le> m" "sublist (lower k) (lower t) \<longrightarrow> sublist (lower k) (lower t')" for m k
    using that nonneg(1,2) by (auto simp: mult_right_mono)
  have p_le: "sum_list (map weight (primary_matches d)) \<le> sum_list (map weight pm')"
    unfolding pv pv' using keep nonneg(3) by (intro sum_list_mono mono) auto
  have s_le: "sum_list (map weight (secondary_matches d)) \<le> sum_list (map weight sm')"
    unfolding sv sv' using keep nonneg(4) by (intro sum_list_mono mono) auto
  have e_imp: "excluded_matches d' \<noteq> [] \<Longrightarrow> excluded_matches d \<noteq> []"
    using excl unfolding d'_def ex by (auto simp: excluded_hits_def filter_empty_conv)
  have "calc_score d \<le> calc_score d'"
    unfolding calc_score_eq using p_le s_le e_imp by (auto simp: d'_def)
  with res s show ?thesis by blast
qed

theorem title_hit_monotone_witness:
  "match_keywords example_parser plain_paper
     = Inr (0, \<lparr>primary_matches = [], secondary_matches = [], excluded_matches = [], author_matches = []\<rparr>)
   \<and> (\<exists>s' d'. match_keywords example_parser (plain_paper\<lparr>title := Some ''Diffusion Model Mapping at Scale''\<rparr>)
          = Inr (s', d') \<and> 0 \<le> s')"
proof -
  have old: "match_keywords example_parser plain_paper
     = Inr (0, \<lparr>primary_matches = [], secondary_matches = [], excluded_matches = [], author_matches = []\<rparr>)"
    by (simp add: mk_ev example_parser_def plain_paper_def ev)
  have t: "title plain_paper = Some ''Mapping at Scale''"
    by (simp add: plain_paper_def mk_paper_def)
  have w: "weight_factors example_parser ''title_match'' = Some 1"
    "weight_factors example_parser ''abstract_match'' = Some (1/2)"
    "weight_factors example_parser ''primary_keyword_match'' = Some 2"
    "weight_factors example_parser ''secondary_keyword_match'' = Some 1"
    by (simp_all add: example_parser_def example_weights_def)
  have keep: "\<forall>k \<in> set (primary_keywords example_parser) \<union> set (secondary_keywords example_parser).
        sublist (lower k) (lower ''Mapping at Scale'')
          \<longrightarrow> sublist (lower k) (lower ''Diffusion Model Mapping at Scale'')"
    by (simp add: example_parser_def ev)
  have excl: "\<forall>k \<in> set (exclude_keywords example_parser).
        sublist (lower k) (lower ''Diffusion Model Mapping at Scale'')
          \<longrightarrow> excluded_matches \<lparr>primary_matches = [], secondary_matches = [],
                 excluded_matches = [], author_matches = []\<rparr> \<noteq> []"
    by (simp add: example_parser_def ev)
  from title_hit_monotone [OF w _ _ _ _ old t keep excl] old show ?thesis by simp
qed

subsection \<open>Keyword filtering and ranking\<close>

lemma match_keywords_ignores_score [simp]:
  "match_keywords cfg (p\<lparr>match_score := x, match_details := y\<rparr>) = match_keywords cfg p"
  by (simp add: match_keywords_def cong: option.case_cong sum.case_cong)

lemma insort_key_agree:
  "f x = g x \<Longrightarrow> (\<forall>y \<in> set ys. f y = g y) \<Longrightarrow> insort_key f x ys = insort_key g x ys"
  by (induction ys) simp_all

lemma sort_key_agree:
  "(\<forall>x \<in> set xs. f x = g x) \<Longrightarrow> sort_key f xs = sort_key g xs"
proof (induction xs)
  case Nil
  show ?case by simp
next
  case (Cons x xs)
  then have "sort_key f xs = sort_key g xs" by simp
  moreover have "insort_key f x (sort_key g xs) = insort_key g x (sort_key g xs)"
    using Cons.prems by (intro insort_key_agree) simp_all
  ultimately show ?case by simp
qed

lemma qualifies_scored [simp]: "qualifies cfg (scored cfg p) = qualifies cfg p"
  by (simp add: qualifies_def scored_def split: sum.splits)

lemma score_of_scored [simp]: "score_of cfg (scored cfg p) = score_of cfg p"
  by (simp add: score_of_def scored_def split: sum.splits)

lemma scored_scored [simp]: "scored cfg (scored cfg p) = scored cfg p"
  by (simp add: scored_def split: sum.splits)

lemma match_score_scored:
  "qualifies cfg p \<Longrightarrow> match_score (scored cfg p) = Some (score_of cfg p)"
  by (simp add: scored_def qualifies_def score_of_def split: sum.splits)

lemma filter_papers_loop_Inr:
  "filter_papers_loop cfg h rs = Inr (h', out) \<Longrightarrow>
     (\<forall>r \<in> set rs. \<exists>s d. match_keywords cfg (h r) = Inr (s, d)) \<and>
     out = filter (\<lambda>r. qualifies cfg (h r)) rs \<and>
     (\<forall>x. h' x = (if x \<in> set out then scored cfg (h x) else h x))"
proof (induction rs arbitrary: h h' out)
  case Nil
  then show ?case by simp
next
  case (Cons r rs)
  from Cons.prems obtain s d where sd: "match_keywords cfg (h r) = Inr (s, d)"
    by (auto split: sum.splits)
  show ?case
  proof (cases "s \<ge> minimum_match_score cfg")
    case True
    let ?h1 = "h(r := (h r)\<lparr>match_score := Some s, match_details := Some d\<rparr>)"
    have h1r: "?h1 r = scored cfg (h r)" by (simp add: scored_def sd)
    have h1: "?h1 = h(r := scored cfg (h r))" by (simp add: scored_def sd)
    from Cons.prems sd True obtain out' where
      rec: "filter_papers_loop cfg ?h1 rs = Inr (h', out')" and out: "out = r # out'"
      by (auto split: sum.splits)
    have q: "qualifies cfg (?h1 x) = qualifies cfg (h x)" for x
      unfolding h1 by simp
    have m: "(\<exists>s d. match_keywords cfg (?h1 x) = Inr (s, d)) = (\<exists>s d. match_keywords cfg (h x) = Inr (s, d))" for x
      by (simp add: sd)
    have sc: "scored cfg (?h1 x) = scored cfg (h x)" for x
      unfolding h1 by simp
    have qr: "qualifies cfg (h r)" using sd True by (simp add: qualifies_def)
    from Cons.IH [OF rec] have
      a: "\<forall>r \<in> set rs. \<exists>s d. match_keywords cfg (?h1 r) = Inr (s, d)" and
      b: "out' = filter (\<lambda>r. qualifies cfg (?h1 r)) rs" and
      c: "\<forall>x. h' x = (if x \<in> set out' then scored cfg (?h1 x) else ?h1 x)"
      by blast+
    have 1: "\<forall>x \<in> set (r # rs). \<exists>s d. match_keywords cfg (h x) = Inr (s, d)"
      using a sd unfolding m by simp
    have 2: "out = filter (\<lambda>r. qualifies cfg (h r)) (r # rs)"
      using b qr unfolding q out by simp
    have 3: "\<forall>x. h' x = (if x \<in> set out then scored cfg (h x) else h x)"
    proof
      fix x
      show "h' x = (if x \<in> set out then scored cfg (h x) else h x)"
      proof (cases "x = r")
        case True
        have "h' r = scored cfg (h r)"
          using c [rule_format, of r] sc [of r] h1r by (simp split: if_splits)
        then show ?thesis using True out by simp
      next
        case False
        then show ?thesis using c [rule_format, of x] sc [of x] out by simp
      qed
    qed
    from 1 2 3 show ?thesis by blast
  next
    case False
    with Cons.prems sd have rec: "filter_papers_loop cfg h rs = Inr (h', out)" by simp
    have qr: "\<not> qualifies cfg (h r)" using sd False by (simp add: qualifies_def)
    from Cons.IH [OF rec] sd qr show ?thesis by auto
  qed
qed

lemma filter_papers_by_keywords_Inr:
  assumes "filter_papers_by_keywords cfg h papers = Inr (h', out)"
  shows "(\<forall>r \<in> set papers. \<exists>s d. match_keywords cfg (h r) = Inr (s, d))"
    and "out = sort_key (\<lambda>r. - score_of cfg (h r)) (filter (\<lambda>r. qualifies cfg (h r)) papers)"
    and "\<forall>x. h' x = (if x \<in> set out then scored cfg (h x) else h x)"
proof -
  from assms obtain fp where
    loop: "filter_papers_loop cfg h papers = Inr (h', fp)" and
    srt: "sort_by_match_score h' fp = Inr out"
    by (auto simp: filter_papers_by_keywords_def split: sum.splits)
  from filter_papers_loop_Inr [OF loop] have
    a: "\<forall>r \<in> set papers. \<exists>s d. match_keywords cfg (h r) = Inr (s, d)" and
    b: "fp = filter (\<lambda>r. qualifies cfg (h r)) papers" and
    c: "\<forall>x. h' x = (if x \<in> set fp then scored cfg (h x) else h x)"
    by blast+
  have key: "- the (match_score (h' r)) = - score_of cfg (h r)" if "r \<in> set fp" for r
    using that b c by (simp add: match_score_scored)
  from srt have "out = sort_key (\<lambda>r. - the (match_score (h' r))) fp"
    by (simp add: sort_by_match_score_def split: if_splits)
  also have "\<dots> = sort_key (\<lambda>r. - score_of cfg (h r)) fp"
    using key by (intro sort_key_agree) simp
  finally have out: "out = sort_key (\<lambda>r. - score_of cfg (h r)) fp" .
  show "\<forall>r \<in> set papers. \<exists>s d. match_keywords cfg (h r) = Inr (s, d)" by (rule a)
  show "out = sort_key (\<lambda>r. - score_of cfg (h r)) (filter (\<lambda>r. qualifies cfg (h r)) papers)"
    using out b by simp
  show "\<forall>x. h' x = (if x \<in> set out then scored cfg (h x) else h x)"
    using c out by simp
qed

lemma qualifies_iff:
  "qualifies cfg p \<longleftrightarrow> (\<exists>s d. match_keywords cfg p = Inr (s, d) \<and> s \<ge> minimum_match_score cfg)"
  by (auto simp: qualifies_def split: sum.splits)

lemma score_of_eq: "match_keywords cfg p = Inr (s, d) \<Longrightarrow> score_of cfg p = s"
  by (simp add: score_of_def)

lemma scored_fields:
  "match_keywords cfg p = Inr (s, d) \<Longrightarrow>
   match_score (scored cfg p) = Some s \<and> match_details (scored cfg p) = Some d"
  by (simp add: scored_def)


lemma filter_papers_loop_total:
  "(\<forall>r \<in> set rs. \<exists>s d. match_keywords cfg (h r) = Inr (s, d)) \<Longrightarrow>
   \<exists>h' out. filter_papers_loop cfg h rs = Inr (h', out)"
proof (induction rs arbitrary: h)
  case Nil
  show ?case by simp
next
  case (Cons r rs)
  from Cons.prems obtain s d where sd: "match_keywords cfg (h r) = Inr (s, d)" by auto
  show ?case
  proof (cases "s \<ge> minimum_match_score cfg")
    case True
    let ?h1 = "h(r := (h r)\<lparr>match_score := Some s, match_details := Some d\<rparr>)"
    have "\<forall>x \<in> set rs. \<exists>s d. match_keywords cfg (?h1 x) = Inr (s, d)"
      using Cons.prems by simp
    from Cons.IH [OF this] obtain h' out where "filter_papers_loop cfg ?h1 rs = Inr (h', out)"
      by blast
    with sd True show ?thesis by simp
  next
    case False
    from Cons.prems have "\<forall>x \<in> set rs. \<exists>s d. match_keywords cfg (h x) = Inr (s, d)" by simp
    from Cons.IH [OF this] sd False show ?thesis by simp
  qed
qed

lemma filter_papers_by_keywords_total:
  assumes "\<forall>r \<in> set papers. \<exists>s d. match_keywords cfg (h r) = Inr (s, d)"
  shows "\<exists>h'. filter_papers_by_keywords cfg h papers
     = Inr (h', sort_key (\<lambda>r. - score_of cfg (h r)) (filter (\<lambda>r. qualifies cfg (h r)) papers))"
proof -
  from filter_papers_loop_total [OF assms] obtain h' fp where
    loop: "filter_papers_loop cfg h papers = Inr (h', fp)" by blast
  from filter_papers_loop_Inr [OF loop] have
    b: "fp = filter (\<lambda>r. qualifies cfg (h r)) papers" and
    c: "\<forall>x. h' x = (if x \<in> set fp then scored cfg (h x) else h x)"
    by blast+
  have "match_score (h' r) \<noteq> None" if "r \<in> set fp" for r
    using that b c by (simp add: match_score_scored)
  then have "list_all (\<lambda>r. match_score (h' r) \<noteq> None) fp"
    by (simp add: list_all_iff)
  then obtain out where srt: "sort_by_match_score h' fp = Inr out"
    by (simp add: sort_by_match_score_def)
  have res: "filter_papers_by_keywords cfg h papers = Inr (h', out)"
    by (simp add: filter_papers_by_keywords_def loop srt)
  from filter_papers_by_keywords_Inr(2) [OF res] res show ?thesis by blast
qed

lemma match_keywords_ranking:
  "match_keywords example_parser (ranking_heap 0) = Inr (1, \<lparr>primary_matches = [],
     secondary_matches = [\<lparr>keyword = ''transformer'', location = Title, weight = 1\<rparr>],
     excluded_matches = [], author_matches = []\<rparr>)"
  "match_keywords example_parser (ranking_heap (Suc 0)) = Inr (2, \<lparr>primary_matches =
       [\<lparr>keyword = ''diffusion model'', location = Title, weight = 2\<rparr>],
     secondary_matches = [], excluded_matches = [], author_matches = []\<rparr>)"
  "match_keywords example_parser (ranking_heap 2) = Inr (3, \<lparr>primary_matches =
       [\<lparr>keyword = ''diffusion model'', location = Title, weight = 2\<rparr>],
     secondary_matches = [\<lparr>keyword = ''transformer'', location = Title, weight = 1\<rparr>],
     excluded_matches = [], author_matches = []\<rparr>)"
  "match_keywords example_parser (ranking_heap 3) = Inr (2, \<lparr>primary_matches =
       [\<lparr>keyword = ''diffusion model'', location = Title, weight = 2\<rparr>],
     secondary_matches = [], excluded_matches = [], author_matches = []\<rparr>)"
  by (simp_all add: mk_ev ranking_heap_def example_parser_def ev)

lemma ranking_scores:
  "score_of example_parser (ranking_heap 0) = 1" "score_of example_parser (ranking_heap (Suc 0)) = 2"
  "score_of example_parser (ranking_heap 2) = 3" "score_of example_parser (ranking_heap 3) = 2"
  "\<not> qualifies example_parser (ranking_heap 0)" "qualifies example_parser (ranking_heap (Suc 0))"
  "qualifies example_parser (ranking_heap 2)" "qualifies example_parser (ranking_heap 3)"
  by (simp_all add: score_of_def qualifies_def match_keywords_ranking, simp_all add: example_parser_def)

lemma ranking_result:
  "\<exists>h'. filter_papers_by_keywords example_parser ranking_heap [0, 1, 2, 3] = Inr (h', [2, 1, 3])"
proof -
  have "\<forall>r \<in> set [0, 1, 2, 3]. \<exists>s d. match_keywords example_parser (ranking_heap r) = Inr (s, d)"
    by (simp add: match_keywords_ranking)
  from filter_papers_by_keywords_total [OF this] show ?thesis
    by (simp add: ranking_scores)
qed


subsection \<open>Impact ranking\<close>

lemma velocity_of_ignores [simp]:
  "velocity_of strptime today (p\<lparr>citation_velocity := v\<rparr>) = velocity_of strptime today p"
  by (simp add: velocity_of_def split: option.splits)

lemma calculate_citation_velocity_at:
  "calculate_citation_velocity strptime today h rs x =
     (if x \<in> set rs then (h x)\<lparr>citation_velocity := Some (velocity_of strptime today (h x))\<rparr> else h x)"
  by (induction rs arbitrary: h) auto

lemma impact_of_ignores [simp]: "impact_of (p\<lparr>impact_score := v\<rparr>) = impact_of p"
  by (simp add: impact_of_def)

lemma impact_loop_at:
  "impact_loop h rs x = (if x \<in> set rs then (h x)\<lparr>impact_score := Some (impact_of (h x))\<rparr> else h x)"
  by (induction rs arbitrary: h) auto

lemma rank_papers_by_impact_heap:
  assumes "rank_papers_by_impact strptime today h papers = (h', out)"
  shows "h' x = (if x \<in> set papers
     then (h x)\<lparr>citation_velocity := Some (velocity_of strptime today (h x)),
            impact_score := Some (0.7 * (case citation_count (h x) of None \<Rightarrow> 0 | Some c \<Rightarrow> real_of_int c)
               + 0.3 * velocity_of strptime today (h x) * 10)\<rparr>
     else h x)"
  using assms
  by (auto simp: rank_papers_by_impact_def Let_def impact_loop_at calculate_citation_velocity_at
      impact_of_def)


lemma cited_heap_fields:
  "citation_count (cited_heap 0) = Some 4" "published_date (cited_heap 0) = Some ''2024-01-14''"
  "citation_count (cited_heap (Suc 0)) = None"
  by (simp_all add: cited_heap_def heap_of_def mk_paper_def empty_paper_def)

lemma cited_heap_ranking:
  "snd (rank_papers_by_impact strptime_ymd today_ex cited_heap [0, 1, 2]) = [0, 2, 1]"
  by (simp add: rank_papers_by_impact_def impact_loop_at calculate_citation_velocity_at
      impact_of_def velocity_of_def get_impact_score_def cited_heap_def heap_of_def mk_paper_def
      empty_paper_def today_ex_def)


subsection \<open>Malformed records\<close>

lemma filter_papers_by_keywords_raises:
  assumes "r \<in> set papers" "title (h r) = None \<or> abstract (h r) = None"
  shows "isl (filter_papers_by_keywords cfg h papers)"
proof (rule ccontr)
  assume "\<not> isl (filter_papers_by_keywords cfg h papers)"
  then obtain h' out where "filter_papers_by_keywords cfg h papers = Inr (h', out)"
    by (cases "filter_papers_by_keywords cfg h papers") auto
  from filter_papers_by_keywords_Inr(1) [OF this] assms(1)
  obtain s d where "match_keywords cfg (h r) = Inr (s, d)" by blast
  with assms(2) show False
    by (auto simp: match_keywords_def split: option.splits)
qed

lemma filter_duplicates_loop_raises:
  "r \<in> set rs \<Longrightarrow> paper_id (h r) = None \<Longrightarrow> isl (filter_duplicates_loop h seen rs)"
proof (induction rs arbitrary: seen)
  case Nil
  then show ?case by simp
next
  case (Cons x xs)
  show ?case
  proof (cases "paper_id (h x)")
    case None
    then show ?thesis by simp
  next
    case (Some i)
    with Cons.prems have "r \<in> set xs" by auto
    from Cons.IH [OF this Cons.prems(2)] have l: "isl (filter_duplicates_loop h s xs)" for s .
    show ?thesis
    proof (cases "i \<in> seen")
      case True
      with Some l [of seen] show ?thesis by simp
    next
      case False
      from l [of "insert i seen"] obtain e where "filter_duplicates_loop h (insert i seen) xs = Inl e"
        by (cases "filter_duplicates_loop h (insert i seen) xs") auto
      with Some False show ?thesis by simp
    qed
  qed
qed




subsection \<open>What the stages write\<close>

lemma scored_frame:
  "(scored cfg p)\<lparr>match_score := match_score p, match_details := match_details p\<rparr> = p"
  by (simp add: scored_def split: sum.splits)

lemma filter_papers_by_keywords_frame:
  assumes "filter_papers_by_keywords cfg h papers = Inr (h', out)"
  shows "(h' x)\<lparr>match_score := match_score (h x), match_details := match_details (h x)\<rparr> = h x"
    and "x \<notin> set out \<Longrightarrow> h' x = h x"
    and "set out \<subseteq> set papers"
  using filter_papers_by_keywords_Inr(2,3) [OF assms] by (auto simp: scored_frame)

text \<open>
  C5, as stated, fails for keyword ranking and for impact ranking: both assign to the
  records of their input.  After \<open>filter_papers_by_keywords\<close> the input record 1 holds a
  match score it did not have; after \<open>rank_papers_by_impact\<close> the input record 0 holds
  a citation velocity it did not have.
\<close>

theorem in_place_update_counterexample:
  "\<not> isl (filter_papers_by_keywords example_parser ranking_heap [0, 1, 2, 3])
   \<and> match_score (ranking_heap 1) = None
   \<and> match_score (fst (projr (filter_papers_by_keywords example_parser ranking_heap [0, 1, 2, 3])) 1) = Some 2
   \<and> citation_velocity (cited_heap 0) = None
   \<and> citation_velocity (fst (rank_papers_by_impact strptime_ymd today_ex cited_heap [0, 1, 2]) 0) = Some 4"
proof -
  from ranking_result obtain h' where
    res: "filter_papers_by_keywords example_parser ranking_heap [0, 1, 2, 3] = Inr (h', [2, 1, 3])"
    by blast
  from filter_papers_by_keywords_Inr(3) [OF res] have "h' 1 = scored example_parser (ranking_heap 1)"
    by simp
  then have 1: "match_score (h' 1) = Some 2"
    using match_score_scored [of example_parser "ranking_heap 1"] ranking_scores by simp
  have 2: "match_score (ranking_heap 1) = None" "citation_velocity (cited_heap 0) = None"
    by (simp_all add: ranking_heap_def cited_heap_def heap_of_def mk_paper_def empty_paper_def)
  let ?res = "rank_papers_by_impact strptime_ymd today_ex cited_heap [0, 1, 2]"
  have "?res = (fst ?res, snd ?res)" by simp
  from rank_papers_by_impact_heap [OF this, of 0]
  have 3: "citation_velocity (fst ?res 0) = Some 4"
    by (simp add: velocity_of_def cited_heap_fields today_ex_def)
  from res 1 2 3 show ?thesis by simp
qed

text \<open>
  C5 (amended): the date filter, the category filter, deduplication and bounding return
  lists of references and write to no record.  Keyword ranking, and with it the whole
  selection, changes nothing but the fields \<open>match_score\<close> and \<open>match_details\<close>, and
  only in records of its input (keyword ranking: only in the records it returns).  Impact
  ranking changes nothing but \<open>citation_velocity\<close> and \<open>impact_score\<close>, and only in
  records of its input.
\<close>

theorem stage_frame:
  "(\<forall>h' out. filter_papers_by_keywords cfg h papers = Inr (h', out) \<longrightarrow>
      (\<forall>x. (h' x)\<lparr>match_score := match_score (h x), match_details := match_details (h x)\<rparr> = h x
          \<and> (x \<notin> set out \<longrightarrow> h' x = h x)))
   \<and> (\<forall>h' out. select strptime today cfg days cats max_papers h papers = Inr (h', out) \<longrightarrow>
      (\<forall>x. (h' x)\<lparr>match_score := match_score (h x), match_details := match_details (h x)\<rparr> = h x
          \<and> (x \<notin> set papers \<longrightarrow> h' x = h x)))
   \<and> (\<forall>h' out. rank_papers_by_impact strptime today h papers = (h', out) \<longrightarrow>
      (\<forall>x. (h' x)\<lparr>citation_velocity := citation_velocity (h x), impact_score := impact_score (h x)\<rparr> = h x
          \<and> (x \<notin> set papers \<longrightarrow> h' x = h x)))"
proof (intro conjI allI impI)
  fix h' out x
  assume a: "filter_papers_by_keywords cfg h papers = Inr (h', out)"
  show "(h' x)\<lparr>match_score := match_score (h x), match_details := match_details (h x)\<rparr> = h x"
    by (rule filter_papers_by_keywords_frame(1) [OF a])
  show "h' x = h x" if "x \<notin> set out"
    using that by (rule filter_papers_by_keywords_frame(2) [OF a])
next
  fix h' out x
  assume a: "select strptime today cfg days cats max_papers h papers = Inr (h', out)"
  then obtain by_date kw where
    d: "filter_by_date strptime today h papers days = Inr by_date" and
    k: "filter_papers_by_keywords cfg h (filter_by_category h by_date cats) = Inr (h', kw)"
    by (auto simp: select_def Let_def split: sum.splits)
  show "(h' x)\<lparr>match_score := match_score (h x), match_details := match_details (h x)\<rparr> = h x"
    by (rule filter_papers_by_keywords_frame(1) [OF k])
  have "set kw \<subseteq> set papers"
    using filter_papers_by_keywords_frame(3) [OF k] filter_by_date_Inr [OF d]
    by (auto simp: filter_by_category_def)
  then show "h' x = h x" if "x \<notin> set papers"
    using that filter_papers_by_keywords_frame(2) [OF k, of x] by blast
next
  fix h' out x
  assume a: "rank_papers_by_impact strptime today h papers = (h', out)"
  show "(h' x)\<lparr>citation_velocity := citation_velocity (h x), impact_score := impact_score (h x)\<rparr> = h x"
    by (simp add: rank_papers_by_impact_heap [OF a])
  show "h' x = h x" if "x \<notin> set papers"
    using that by (simp add: rank_papers_by_impact_heap [OF a])
qed

theorem stage_frame_witness:
  "\<exists>h'. filter_papers_by_keywords example_parser ranking_heap [0, 1, 2, 3] = Inr (h', [2, 1, 3])
     \<and> h' 0 = ranking_heap 0
     \<and> (h' 1)\<lparr>match_score := None, match_details := None\<rparr> = ranking_heap 1"
proof -
  from ranking_result obtain h' where
    res: "filter_papers_by_keywords example_parser ranking_heap [0, 1, 2, 3] = Inr (h', [2, 1, 3])"
    by blast
  have n: "match_score (ranking_heap 1) = None" "match_details (ranking_heap 1) = None"
    by (simp_all add: ranking_heap_def heap_of_def mk_paper_def empty_paper_def)
  from stage_frame [of example_parser ranking_heap "[0, 1, 2, 3]"] res
  have "\<forall>x. (h' x)\<lparr>match_score := match_score (ranking_heap x),
             match_details := match_details (ranking_heap x)\<rparr> = ranking_heap x
          \<and> (x \<notin> set [2, 1, 3] \<longrightarrow> h' x = ranking_heap x)"
    by blast
  then have "h' 0 = ranking_heap 0"
    "(h' 1)\<lparr>match_score := match_score (ranking_heap 1),
        match_details := match_details (ranking_heap 1)\<rparr> = ranking_heap 1"
    by simp_all
  with res n show ?thesis by auto
qed

subsection \<open>Deduplication, bounding and the selection\<close>

lemma filter_duplicates_loop_set:
  "filter_duplicates_loop h seen rs = Inr out \<Longrightarrow> set out \<subseteq> set rs"
proof (induction rs arbitrary: seen out)
  case Nil
  then show ?case by simp
next
  case (Cons r rs)
  from Cons.prems obtain i where i: "paper_id (h r) = Some i"
    by (auto split: option.splits)
  show ?case
  proof (cases "i \<in> seen")
    case True
    with Cons.prems i have "filter_duplicates_loop h seen rs = Inr out" by simp
    from Cons.IH [OF this] show ?thesis by auto
  next
    case False
    with Cons.prems i obtain out' where
      rec: "filter_duplicates_loop h (insert i seen) rs = Inr out'" and out: "out = r # out'"
      by (auto split: sum.splits)
    from Cons.IH [OF rec] out show ?thesis by auto
  qed
qed

lemma filter_duplicates_loop_sorted:
  "filter_duplicates_loop h seen rs = Inr out \<Longrightarrow> sorted_wrt P rs \<Longrightarrow> sorted_wrt P out"
proof (induction rs arbitrary: seen out)
  case Nil
  then show ?case by simp
next
  case (Cons r rs)
  from Cons.prems obtain i where i: "paper_id (h r) = Some i"
    by (auto split: option.splits)
  from Cons.prems(2) have srt: "sorted_wrt P rs" and hd: "\<forall>x \<in> set rs. P r x" by simp_all
  show ?case
  proof (cases "i \<in> seen")
    case True
    with Cons.prems i have "filter_duplicates_loop h seen rs = Inr out" by simp
    from Cons.IH [OF this srt] show ?thesis .
  next
    case False
    with Cons.prems i obtain out' where
      rec: "filter_duplicates_loop h (insert i seen) rs = Inr out'" and out: "out = r # out'"
      by (auto split: sum.splits)
    from Cons.IH [OF rec srt] filter_duplicates_loop_set [OF rec] hd out show ?thesis by auto
  qed
qed

lemma filter_duplicates_loop_distinct:
  "filter_duplicates_loop h seen rs = Inr out \<Longrightarrow>
   distinct (map (\<lambda>r. paper_id (h r)) out) \<and> (\<forall>q \<in> set out. \<forall>i \<in> seen. paper_id (h q) \<noteq> Some i)"
proof (induction rs arbitrary: seen out)
  case Nil
  then show ?case by simp
next
  case (Cons r rs)
  from Cons.prems obtain i where i: "paper_id (h r) = Some i"
    by (auto split: option.splits)
  show ?case
  proof (cases "i \<in> seen")
    case True
    with Cons.prems i have "filter_duplicates_loop h seen rs = Inr out" by simp
    from Cons.IH [OF this] show ?thesis .
  next
    case False
    with Cons.prems i obtain out' where
      rec: "filter_duplicates_loop h (insert i seen) rs = Inr out'" and out: "out = r # out'"
      by (auto split: sum.splits)
    from Cons.IH [OF rec] have d: "distinct (map (\<lambda>r. paper_id (h r)) out')"
      and n: "\<forall>q \<in> set out'. \<forall>j \<in> insert i seen. paper_id (h q) \<noteq> Some j"
      by blast+
    from n have "paper_id (h r) \<notin> set (map (\<lambda>r. paper_id (h r)) out')"
      using i by auto
    with d n i False show ?thesis unfolding out by auto
  qed
qed

text \<open>Every identifier not seen before keeps its first paper, which precedes the others.\<close>

lemma filter_duplicates_loop_cover:
  assumes "filter_duplicates_loop h seen rs = Inr out" "sorted_wrt P rs" "\<forall>x. P x x"
    "r \<in> set rs"
  shows "\<exists>i. paper_id (h r) = Some i \<and>
     (i \<notin> seen \<longrightarrow> (\<exists>q \<in> set out. paper_id (h q) = Some i \<and> P q r))"
  using assms
proof (induction rs arbitrary: seen out)
  case Nil
  then show ?case by simp
next
  case (Cons x xs)
  from Cons.prems(1) obtain j where j: "paper_id (h x) = Some j"
    by (auto split: option.splits)
  from Cons.prems(2) have srt: "sorted_wrt P xs" and hd: "\<forall>y \<in> set xs. P x y" by simp_all
  show ?case
  proof (cases "j \<in> seen")
    case True
    with Cons.prems(1) j have rec: "filter_duplicates_loop h seen xs = Inr out" by simp
    show ?thesis
    proof (cases "r = x")
      case True
      with j \<open>j \<in> seen\<close> show ?thesis by simp
    next
      case False
      with Cons.prems(4) have "r \<in> set xs" by simp
      from Cons.IH [OF rec srt Cons.prems(3) this] show ?thesis .
    qed
  next
    case False
    with Cons.prems(1) j obtain out' where
      rec: "filter_duplicates_loop h (insert j seen) xs = Inr out'" and out: "out = x # out'"
      by (auto split: sum.splits)
    show ?thesis
    proof (cases "r = x")
      case True
      with j out Cons.prems(3) show ?thesis by auto
    next
      case False
      with Cons.prems(4) have rx: "r \<in> set xs" by simp
      from Cons.IH [OF rec srt Cons.prems(3) rx] obtain i where
        i: "paper_id (h r) = Some i" and
        c: "i \<notin> insert j seen \<longrightarrow> (\<exists>q \<in> set out'. paper_id (h q) = Some i \<and> P q r)"
        by blast
      show ?thesis
      proof (cases "i = j")
        case True
        with i j hd rx out show ?thesis by auto
      next
        case False
        with i c out show ?thesis by auto
      qed
    qed
  qed
qed

lemma limit_papers_nonneg: "0 \<le> limit \<Longrightarrow> limit_papers rs limit = take (nat limit) rs"
  by (simp add: limit_papers_def)

lemma select_Inr:
  assumes "select strptime today cfg days cats max_papers h papers = Inr (h', out)"
  obtains kw dd where
    "filter_papers_by_keywords cfg h
       (filter_by_category h (filter (\<lambda>r. date_ok strptime (today - days) (h r)) papers) cats)
       = Inr (h', kw)"
    "filter_duplicates h' kw = Inr dd" "out = limit_papers dd max_papers"
proof -
  from assms obtain by_date kw dd where
    d: "filter_by_date strptime today h papers days = Inr by_date" and
    k: "filter_papers_by_keywords cfg h (filter_by_category h by_date cats) = Inr (h', kw)" and
    u: "filter_duplicates h' kw = Inr dd" and o: "out = limit_papers dd max_papers"
    by (auto simp: select_def Let_def split: sum.splits)
  from filter_by_date_Inr [OF d] k u o that show thesis by simp
qed


lemma ranking_heap_fields:
  "paper_id (ranking_heap (Suc 0)) = Some ''2501.00011''" "paper_id (ranking_heap 2) = Some ''2501.00012''"
  "paper_id (ranking_heap 3) = Some ''2501.00011''"
  by (simp_all add: ranking_heap_def heap_of_def mk_paper_def empty_paper_def)

lemma ranking_heap_candidates:
  "filter_by_date strptime_ymd today_ex ranking_heap [0, 1, 2, 3] 2 = Inr [0, 1, 2, 3]"
  "filter_by_category ranking_heap [0, 1, 2, 3] [''cs.RO''] = [0, 1, 2, 3]"
  by (simp_all add: filter_by_date_def date_minus_days_def date_ok_def filter_by_category_def
      get_categories_def ranking_heap_def heap_of_def mk_paper_def empty_paper_def today_ex_def)

lemma ranking_selection:
  "\<exists>h'. select strptime_ymd today_ex example_parser 2 [''cs.RO''] 2 ranking_heap [0, 1, 2, 3]
     = Inr (h', [2, 1])"
proof -
  from ranking_result obtain h' where
    res: "filter_papers_by_keywords example_parser ranking_heap [0, 1, 2, 3] = Inr (h', [2, 1, 3])"
    by blast
  have "paper_id (h' r) = paper_id (ranking_heap r)" for r
    using filter_papers_by_keywords_frame(1) [OF res, of r]
    by (metis paper.select_convs(1) paper.surjective paper.update_convs(7) paper.update_convs(8))
  then have dd: "filter_duplicates h' [2, 1, 3] = Inr [2, 1]"
    by (simp add: filter_duplicates_def ranking_heap_fields)
  have "select strptime_ymd today_ex example_parser 2 [''cs.RO''] 2 ranking_heap [0, 1, 2, 3]
     = Inr (h', [2, 1])"
    unfolding select_def ranking_heap_candidates Let_def sum.case res prod.case dd
    by (simp add: limit_papers_def)
  then show ?thesis by blast
qed


end
